theory Spec2Isabelle
  imports Main "HOL-Library.Word"
begin

unbundle bit_operations_syntax

section \<open>The verb dispatcher of src/basic/verbs.c\<close>

subsection \<open>Data\<close>

text \<open>
  C's \<open>int\<close> and \<open>unsigned\<close> are 32-bit words. A word is read as a signed value with
  \<open>sint\<close>; the order \<open><\<close> on words is the unsigned one, so the cast
  \<open>(unsigned) left\<close> of the source is the identity on the representation.
\<close>

type_synonym c_int = "32 word"
type_synonym c_unsigned = "32 word"

text \<open>
  A \<open>char *\<close> is \<open>None\<close> when it is the NULL pointer. An argument vector is the array
  of pointers behind \<open>argv\<close>, all the slots that may be read, the terminating NULL included;
  the pointer \<open>argv + n\<close> is the array without its first \<open>n\<close> slots.
\<close>

type_synonym argv = "string option list"

text \<open>
  The diagnostics of log.h: the level, the error number handed to the \<open>_errno\<close> variants
  (0 for the others) and the message with its \<open>%s\<close> filled in (\<open>%m\<close> stands for the text
  of the error number and is left as it is).
\<close>

datatype log_level = LOG_ERR | LOG_INFO | LOG_DEBUG

datatype log_entry = Log log_level c_int string

text \<open>
  A handler is a C function \<open>int (*)(int argc, char *argv[], void *userdata)\<close>; it may
  change the state of the process, of type \<open>'s\<close>.
\<close>

type_synonym ('u, 's) handler = "c_int \<Rightarrow> argv \<Rightarrow> 'u \<Rightarrow> 's \<Rightarrow> c_int \<times> 's"

text \<open>
  The struct \<open>Verb\<close>, with the fields \<open>dispatch_verb\<close> reads. The function pointer
  \<open>dispatch\<close> is NULL in the entry that ends a table.
\<close>

record ('u, 's) Verb =
  verb :: string
  min_args :: c_unsigned
  max_args :: c_unsigned
  flags :: c_unsigned
  dispatch :: "('u, 's) handler option"

text \<open>
  The constants of verbs.h, which is not among the sources: the sentinel \<open>VERB_ANY\<close> and
  the three flag masks. They are parameters of the model, so that every statement holds
  for whatever values the header gives them.
\<close>

record verbs_h =
  VERB_ANY :: c_unsigned
  VERB_DEFAULT :: c_unsigned
  VERB_ONLINE_ONLY :: c_unsigned
  VERB_MUST_BE_ROOT :: c_unsigned

text \<open>
  What the functions read from outside: the global \<open>optind\<close> of getopt.h, and the values
  returned by \<open>getenv_bool\<close> (env-util.h, by variable name), \<open>running_in_chroot\<close> (virt.h)
  and \<open>must_be_root\<close>, none of which is among the sources. Each returns an \<open>int\<close>,
  negative for an error.
\<close>

record extern =
  optind :: c_int
  getenv_bool :: "string \<Rightarrow> c_int"
  running_in_chroot :: c_int
  must_be_root :: c_int

text \<open>\<open>EINVAL\<close> of errno.h on Linux.\<close>

definition EINVAL :: c_int where
  "EINVAL = 22"

text \<open>
  A failed \<open>assert\<close> aborts the process; a read outside an array is undefined behaviour.
  Both are values of the model.
\<close>

datatype fault = AssertFailed | OutOfBounds

text \<open>
  How \<open>dispatch_verb\<close> ends: \<open>Return r\<close> is \<open>return r\<close> with no handler called;
  \<open>Call d n args u\<close> is the statement \<open>return d(n, args, u)\<close>, one call of the handler
  \<open>d\<close> whose result is the result of \<open>dispatch_verb\<close>.
\<close>

datatype ('u, 's) exit =
  Return c_int
| Call "('u, 's) handler" c_int argv 'u

fun run_exit :: "('u, 's) exit \<Rightarrow> 's \<Rightarrow> c_int \<times> 's" where
  "run_exit (Return r) s = (r, s)"
| "run_exit (Call d n args u) s = d n args u s"

subsection \<open>running_in_chroot_or_offline\<close>

text \<open>The diagnostics logged, in order, and the value returned.\<close>

definition running_in_chroot_or_offline :: "extern \<Rightarrow> log_entry list \<times> bool" where
  "running_in_chroot_or_offline x =
     (let r = getenv_bool x ''SYSTEMD_OFFLINE'' in
      if sint r < 0 then
        (let l = [Log LOG_DEBUG r ''Parsing SYSTEMD_OFFLINE: %m''];
             r = running_in_chroot x in
         if sint r < 0 then (l @ [Log LOG_DEBUG r ''running_in_chroot(): %m''], False)
         else if 0 < sint r then (l, True)
         else (l, False))
      else if r = 0 then ([], False)
      else ([], True))"

subsection \<open>dispatch_verb\<close>

text \<open>The read \<open>argv[i]\<close> for an \<open>int\<close> index.\<close>

definition argv_at :: "argv \<Rightarrow> c_int \<Rightarrow> fault + string option" where
  "argv_at av i =
     (if 0 \<le> sint i \<and> nat (sint i) < length av then Inr (av ! nat (sint i))
      else Inl OutOfBounds)"

text \<open>
  The test of one table entry in the loop: \<open>streq\<close> on the name when there is one, the
  flag \<open>VERB_DEFAULT\<close> otherwise.
\<close>

definition found :: "verbs_h \<Rightarrow> string option \<Rightarrow> ('u, 's) Verb \<Rightarrow> bool" where
  "found h name v =
     (case name of
        Some n \<Rightarrow> n = verb v
      | None \<Rightarrow> flags v AND VERB_DEFAULT h \<noteq> 0)"

text \<open>
  The loop \<open>for (i = 0;; i++)\<close>, on the entries from \<open>verbs[i]\<close> on. It ends at the first
  entry without a handler (\<open>AtEnd\<close>) or at the first entry found (\<open>Match\<close>, with the entry
  and its handler); a table with neither is read past its last entry (\<open>Overrun\<close>).
\<close>

datatype ('u, 's) scan =
  Overrun
| AtEnd
| Match "('u, 's) Verb" "('u, 's) handler"

fun find_verb :: "verbs_h \<Rightarrow> string option \<Rightarrow> ('u, 's) Verb list \<Rightarrow> ('u, 's) scan" where
  "find_verb h name [] = Overrun"
| "find_verb h name (v # vs) =
     (case dispatch v of
        None \<Rightarrow> AtEnd
      | Some d \<Rightarrow> if found h name v then Match v d else find_verb h name vs)"

text \<open>
  The function from the argument-count checks on, for the entry \<open>v\<close> found, its handler
  \<open>d\<close> and the effective argument count \<open>left\<close>. \<open>must_be_root\<close> is not among the
  sources: what it logs is not in the list.
\<close>

definition dispatch_found ::
  "verbs_h \<Rightarrow> extern \<Rightarrow> c_int \<Rightarrow> argv \<Rightarrow> string option \<Rightarrow> ('u, 's) Verb \<Rightarrow>
   ('u, 's) handler \<Rightarrow> 'u \<Rightarrow> log_entry list \<times> ('u, 's) exit" where
  "dispatch_found h x left av name v d userdata =
     (if min_args v \<noteq> VERB_ANY h \<and> left < min_args v then
        ([Log LOG_ERR 0 ''Too few arguments.''], Return (- EINVAL))
      else if max_args v \<noteq> VERB_ANY h \<and> max_args v < left then
        ([Log LOG_ERR 0 ''Too many arguments.''], Return (- EINVAL))
      else
        (let (l, offline) =
               (if flags v AND VERB_ONLINE_ONLY h \<noteq> 0 then running_in_chroot_or_offline x
                else ([], False)) in
         if offline then
           (l @ [Log LOG_INFO 0
                  (case name of
                     Some n \<Rightarrow> ''Running in chroot, ignoring request: '' @ n
                   | None \<Rightarrow> ''Running in chroot, ignoring request.'')],
            Return 0)
         else if flags v AND VERB_MUST_BE_ROOT h \<noteq> 0 \<and> sint (must_be_root x) < 0 then
           (l, Return (must_be_root x))
         else
           (l, case name of
                 Some n \<Rightarrow> Call d left (drop (nat (sint (optind x))) av) userdata
               | None \<Rightarrow> Call d 1 [Some (verb v), None] userdata)))"

text \<open>
  The five assertions that open \<open>dispatch_verb\<close>. The table \<open>verbs\<close> is the array
  behind the pointer, and so is \<open>argv\<close>: a pointer with no slot behind it is the NULL
  pointer of \<open>assert(verbs)\<close> and \<open>assert(argv)\<close>.
\<close>

definition asserts :: "extern \<Rightarrow> c_int \<Rightarrow> argv \<Rightarrow> ('u, 's) Verb list \<Rightarrow> bool" where
  "asserts x argc av verbs \<longleftrightarrow>
     verbs \<noteq> [] \<and>
     dispatch (hd verbs) \<noteq> None \<and>
     0 \<le> sint argc \<and>
     av \<noteq> [] \<and>
     sint (optind x) \<le> sint argc"

text \<open>
  \<open>dispatch_verb(argc, argv, verbs, userdata)\<close>. The subtraction \<open>argc - optind\<close> wraps
  around where C leaves the overflow undefined; that needs \<open>optind < 0\<close>, and then the
  read \<open>argv[optind]\<close> in the next line is out of bounds.
\<close>

definition dispatch_verb ::
  "verbs_h \<Rightarrow> extern \<Rightarrow> c_int \<Rightarrow> argv \<Rightarrow> ('u, 's) Verb list \<Rightarrow> 'u \<Rightarrow>
   fault + log_entry list \<times> ('u, 's) exit" where
  "dispatch_verb h x argc av verbs userdata =
     (if \<not> asserts x argc av verbs then Inl AssertFailed
      else
        (let left = argc - optind x in
         case argv_at av (optind x) of
           Inl f \<Rightarrow> Inl f
         | Inr name \<Rightarrow>
             (case find_verb h name verbs of
                Overrun \<Rightarrow> Inl OutOfBounds
              | AtEnd \<Rightarrow>
                  Inr ([Log LOG_ERR 0
                         (case name of
                            Some n \<Rightarrow> ''Unknown operation '' @ n @ ''.''
                          | None \<Rightarrow> ''Requires operation parameter.'')],
                       Return (- EINVAL))
              | Match v d \<Rightarrow>
                  (let left = (if name = None then 1 else left) in
                   Inr (dispatch_found h x left av name v d userdata)))))"

subsection \<open>Vocabulary of the specification\<close>

text \<open>
  An argument vector terminated at index \<open>argc\<close>: \<open>argc\<close> strings, then the NULL pointer
  that ends the vector.
\<close>

definition argv_terminated_at :: "argv \<Rightarrow> c_int \<Rightarrow> bool" where
  "argv_terminated_at av argc \<longleftrightarrow>
     nat (sint argc) < length av \<and>
     av ! nat (sint argc) = None \<and>
     list_all (\<lambda>a. a \<noteq> None) (take (nat (sint argc)) av)"

text \<open>
  The argument-count validation passes for the entry \<open>v\<close> and the effective argument
  count \<open>left\<close>: neither test of the source fires.
\<close>

definition count_valid :: "verbs_h \<Rightarrow> ('u, 's) Verb \<Rightarrow> c_int \<Rightarrow> bool" where
  "count_valid h v left \<longleftrightarrow>
     \<not> (min_args v \<noteq> VERB_ANY h \<and> left < min_args v) \<and>
     \<not> (max_args v \<noteq> VERB_ANY h \<and> max_args v < left)"

text \<open>What a run of \<open>dispatch_verb\<close> logged, and whether it called a handler.\<close>

definition diagnostics :: "fault + log_entry list \<times> ('u, 's) exit \<Rightarrow> log_entry list" where
  "diagnostics r = (case r of Inl f \<Rightarrow> [] | Inr (l, e) \<Rightarrow> l)"

definition invokes :: "fault + log_entry list \<times> ('u, 's) exit \<Rightarrow> bool" where
  "invokes r = (case r of Inr (l, Call d n args u) \<Rightarrow> True | _ \<Rightarrow> False)"

text \<open>The level of a diagnostic.\<close>

fun level :: "log_entry \<Rightarrow> log_level" where
  "level (Log lv e m) = lv"

subsection \<open>The scenario of the specification\<close>

text \<open>
  The table of the scenario: \<open>status\<close> (one argument, the default verb) and \<open>restart\<close>
  (one or two arguments, online only, root only), then the entry that ends the table. The
  header constants are given the values of a single bit each and the all-ones sentinel.
\<close>

definition hdr :: verbs_h where
  "hdr = \<lparr>VERB_ANY = - 1, VERB_DEFAULT = 1, VERB_ONLINE_ONLY = 2, VERB_MUST_BE_ROOT = 4\<rparr>"

definition H1 :: "(unit, nat) handler" where
  "H1 n args u s = (0, s + 1)"

definition H2 :: "(unit, nat) handler" where
  "H2 n args u s = (0, s + 2)"

definition tbl :: "(unit, nat) Verb list" where
  "tbl =
     [\<lparr>verb = ''status'', min_args = 1, max_args = 1, flags = 1, dispatch = Some H1\<rparr>,
      \<lparr>verb = ''restart'', min_args = 1, max_args = 2, flags = 6, dispatch = Some H2\<rparr>,
      \<lparr>verb = [], min_args = 0, max_args = 0, flags = 0, dispatch = None\<rparr>]"

text \<open>
  The table of the argument-count example: \<open>link\<close> takes two to four arguments, \<open>log\<close>
  at least one (its maximum is the sentinel).
\<close>

definition tbl_bounds :: "(unit, nat) Verb list" where
  "tbl_bounds =
     [\<lparr>verb = ''link'', min_args = 2, max_args = 4, flags = 0, dispatch = Some H1\<rparr>,
      \<lparr>verb = ''log'', min_args = 1, max_args = - 1, flags = 0, dispatch = Some H2\<rparr>,
      \<lparr>verb = [], min_args = 0, max_args = 0, flags = 0, dispatch = None\<rparr>]"

text \<open>
  Two tables whose default verb is gated: \<open>start\<close> is online only and root only,
  \<open>compare\<close> needs two arguments.
\<close>

definition tbl_gated :: "(unit, nat) Verb list" where
  "tbl_gated =
     [\<lparr>verb = ''start'', min_args = 1, max_args = - 1, flags = 7, dispatch = Some H1\<rparr>,
      \<lparr>verb = [], min_args = 0, max_args = 0, flags = 0, dispatch = None\<rparr>]"

definition tbl_pair :: "(unit, nat) Verb list" where
  "tbl_pair =
     [\<lparr>verb = ''compare'', min_args = 2, max_args = 2, flags = 1, dispatch = Some H2\<rparr>,
      \<lparr>verb = [], min_args = 0, max_args = 0, flags = 0, dispatch = None\<rparr>]"

text \<open>
  A process with \<open>optind = oi\<close>, where \<open>getenv_bool\<close> returns \<open>off\<close> for every
  variable, \<open>running_in_chroot\<close> returns \<open>chr\<close> and \<open>must_be_root\<close> returns \<open>root\<close>.
\<close>

definition sys :: "c_int \<Rightarrow> c_int \<Rightarrow> c_int \<Rightarrow> c_int \<Rightarrow> extern" where
  "sys oi off chr root =
     \<lparr>optind = oi, getenv_bool = (\<lambda>_. off), running_in_chroot = chr, must_be_root = root\<rparr>"

section \<open>Properties\<close>

subsection \<open>Machine integers\<close>

text \<open>
  Under the assertions neither \<open>argc - optind\<close> nor the cast to \<open>unsigned\<close> changes a
  value: the difference of two non-negative \<open>int\<close>s in order does not overflow, and a
  non-negative \<open>int\<close> compares with an \<open>unsigned\<close> as the integers do.
\<close>

lemma sint_diff:
  fixes a b :: "32 word"
  assumes "0 \<le> sint b" and "sint b \<le> sint a"
  shows "sint (a - b) = sint a - sint b"
proof -
  have "sint a < 2 ^ 31" using sint_lt [of a] by simp
  moreover have "- (2 ^ 31) \<le> sint a" using sint_ge [of a] by simp
  ultimately have "- (2 ^ 31) \<le> sint a - sint b" and "sint a - sint b < 2 ^ 31"
    using assms by simp_all
  then have "signed_take_bit 31 (sint a - sint b) = sint a - sint b"
    by (simp add: signed_take_bit_int_eq_self)
  then show ?thesis by (simp add: sint_word_diff)
qed

lemma sint_nonneg_uint:
  fixes a :: "32 word"
  assumes "0 \<le> sint a"
  shows "sint a = uint a"
proof -
  have "sint a < 2 ^ 32" using sint_lt [of a] by simp
  then have "take_bit 32 (sint a) = sint a"
    using assms by (simp add: take_bit_int_eq_self)
  then show ?thesis by (simp add: uint_sint)
qed

lemma count_below:
  fixes a b :: "32 word"
  shows "0 \<le> sint a \<Longrightarrow> a < b \<longleftrightarrow> sint a < uint b"
  by (simp add: word_less_def sint_nonneg_uint)

lemma count_above:
  fixes a b :: "32 word"
  shows "0 \<le> sint a \<Longrightarrow> b < a \<longleftrightarrow> uint b < sint a"
  by (simp add: word_less_def sint_nonneg_uint)

subsection \<open>The lookup loop\<close>

lemma find_verb_skip:
  "\<forall>u\<in>set pre. dispatch u \<noteq> None \<and> \<not> found h name u \<Longrightarrow>
   find_verb h name (pre @ vs) = find_verb h name vs"
  by (induction pre) auto

lemma find_verb_Match:
  assumes "\<forall>u\<in>set pre. dispatch u \<noteq> None \<and> \<not> found h name u"
    and "dispatch v = Some d" and "found h name v"
  shows "find_verb h name (pre @ v # rest) = Match v d"
  using assms by (simp add: find_verb_skip)

lemma find_verb_AtEnd:
  assumes "\<forall>u\<in>set pre. dispatch u \<noteq> None \<and> \<not> found h name u"
    and "dispatch t = None"
  shows "find_verb h name (pre @ t # rest) = AtEnd"
  using assms by (simp add: find_verb_skip)

lemma find_verb_MatchD:
  "find_verb h name verbs = Match v d \<Longrightarrow>
   \<exists>pre rest. verbs = pre @ v # rest \<and>
     (\<forall>u\<in>set pre. dispatch u \<noteq> None \<and> \<not> found h name u) \<and>
     dispatch v = Some d \<and> found h name v"
proof (induction verbs)
  case Nil
  then show ?case by simp
next
  case (Cons w ws)
  show ?case
  proof (cases "dispatch w")
    case None
    with Cons.prems show ?thesis by simp
  next
    case (Some d')
    show ?thesis
    proof (cases "found h name w")
      case True
      with Some Cons.prems have "w = v" "d' = d" by simp_all
      with Some True have "w # ws = [] @ v # ws \<and>
          (\<forall>u\<in>set []. dispatch u \<noteq> None \<and> \<not> found h name u) \<and>
          dispatch v = Some d \<and> found h name v" by simp
      then show ?thesis by blast
    next
      case False
      with Some Cons.prems have "find_verb h name ws = Match v d" by simp
      from Cons.IH [OF this] obtain pre rest where
        *: "ws = pre @ v # rest" "\<forall>u\<in>set pre. dispatch u \<noteq> None \<and> \<not> found h name u"
           "dispatch v = Some d" "found h name v" by blast
      with Some False have "w # ws = (w # pre) @ v # rest \<and>
          (\<forall>u\<in>set (w # pre). dispatch u \<noteq> None \<and> \<not> found h name u) \<and>
          dispatch v = Some d \<and> found h name v" by simp
      then show ?thesis by blast
    qed
  qed
qed

subsection \<open>dispatch_verb after the assertions\<close>

lemma dispatch_verb_Match:
  assumes "asserts x argc av verbs" and "argv_at av (optind x) = Inr name"
    and "find_verb h name verbs = Match v d"
  shows "dispatch_verb h x argc av verbs u =
         Inr (dispatch_found h x (if name = None then 1 else argc - optind x) av name v d u)"
  using assms by (simp add: dispatch_verb_def)

lemma dispatch_verb_AtEnd:
  assumes "asserts x argc av verbs" and "argv_at av (optind x) = Inr name"
    and "find_verb h name verbs = AtEnd"
  shows "dispatch_verb h x argc av verbs u =
         Inr ([Log LOG_ERR 0
                (case name of
                   Some n \<Rightarrow> ''Unknown operation '' @ n @ ''.''
                 | None \<Rightarrow> ''Requires operation parameter.'')],
              Return (- EINVAL))"
  using assms by (simp add: dispatch_verb_def)

lemma offline_logs_debug:
  "e \<in> set (fst (running_in_chroot_or_offline x)) \<Longrightarrow> level e = LOG_DEBUG"
  by (auto simp: running_in_chroot_or_offline_def Let_def split: if_splits)

lemma left_in_range:
  assumes "asserts x argc av verbs" and "argv_at av (optind x) = Inr name"
  shows "sint (argc - optind x) = sint argc - sint (optind x)"
    and "0 \<le> sint (argc - optind x)"
proof -
  from assms(2) have "0 \<le> sint (optind x)"
    by (simp add: argv_at_def split: if_splits)
  moreover from assms(1) have "sint (optind x) \<le> sint argc"
    by (simp add: asserts_def)
  ultimately show "sint (argc - optind x) = sint argc - sint (optind x)"
    by (rule sint_diff)
  with \<open>sint (optind x) \<le> sint argc\<close> show "0 \<le> sint (argc - optind x)"
    by simp
qed

lemma effective_nonneg:
  assumes "asserts x argc av verbs" and "argv_at av (optind x) = Inr name"
  shows "0 \<le> sint (if name = None then 1 else argc - optind x)"
  using left_in_range(2) [OF assms] by simp

subsection \<open>The gates after the lookup\<close>

lemma dispatch_found_too_few:
  assumes "min_args v \<noteq> VERB_ANY h" and "left < min_args v"
  shows "dispatch_found h x left av name v d u =
         ([Log LOG_ERR 0 ''Too few arguments.''], Return (- EINVAL))"
  using assms by (simp add: dispatch_found_def)

lemma dispatch_found_too_many:
  assumes "\<not> (min_args v \<noteq> VERB_ANY h \<and> left < min_args v)"
    and "max_args v \<noteq> VERB_ANY h" and "max_args v < left"
  shows "dispatch_found h x left av name v d u =
         ([Log LOG_ERR 0 ''Too many arguments.''], Return (- EINVAL))"
  using assms by (simp add: dispatch_found_def)

lemma dispatch_found_invalid:
  assumes "\<not> count_valid h v left"
  shows "dispatch_found h x left av name v d u =
           ([Log LOG_ERR 0 ''Too few arguments.''], Return (- EINVAL)) \<or>
         dispatch_found h x left av name v d u =
           ([Log LOG_ERR 0 ''Too many arguments.''], Return (- EINVAL))"
proof (cases "min_args v \<noteq> VERB_ANY h \<and> left < min_args v")
  case True
  then show ?thesis by (simp add: dispatch_found_too_few)
next
  case False
  with assms have "max_args v \<noteq> VERB_ANY h" and "max_args v < left"
    by (simp_all add: count_valid_def)
  with False show ?thesis by (simp add: dispatch_found_too_many)
qed

lemma dispatch_found_valid:
  assumes "count_valid h v left"
  shows "dispatch_found h x left av name v d u =
    (let (l, offline) =
           (if flags v AND VERB_ONLINE_ONLY h \<noteq> 0 then running_in_chroot_or_offline x
            else ([], False)) in
     if offline then
       (l @ [Log LOG_INFO 0
              (case name of
                 Some n \<Rightarrow> ''Running in chroot, ignoring request: '' @ n
               | None \<Rightarrow> ''Running in chroot, ignoring request.'')],
        Return 0)
     else if flags v AND VERB_MUST_BE_ROOT h \<noteq> 0 \<and> sint (must_be_root x) < 0 then
       (l, Return (must_be_root x))
     else
       (l, case name of
             Some n \<Rightarrow> Call d left (drop (nat (sint (optind x))) av) u
           | None \<Rightarrow> Call d 1 [Some (verb v), None] u))"
proof -
  from assms have "\<not> (min_args v \<noteq> VERB_ANY h \<and> left < min_args v)"
    and "\<not> (max_args v \<noteq> VERB_ANY h \<and> max_args v < left)"
    by (simp_all add: count_valid_def)
  then show ?thesis
    unfolding dispatch_found_def by (simp only: if_False)
qed

lemma dispatch_found_skip:
  assumes "count_valid h v left"
    and "flags v AND VERB_ONLINE_ONLY h \<noteq> 0"
    and "running_in_chroot_or_offline x = (l, True)"
  shows "dispatch_found h x left av name v d u =
         (l @ [Log LOG_INFO 0
                (case name of
                   Some n \<Rightarrow> ''Running in chroot, ignoring request: '' @ n
                 | None \<Rightarrow> ''Running in chroot, ignoring request.'')],
          Return 0)"
  using assms(2,3) by (simp add: dispatch_found_valid [OF assms(1)])

lemma dispatch_found_not_root:
  assumes "count_valid h v left"
    and "\<not> (flags v AND VERB_ONLINE_ONLY h \<noteq> 0 \<and> snd (running_in_chroot_or_offline x))"
    and "flags v AND VERB_MUST_BE_ROOT h \<noteq> 0" and "sint (must_be_root x) < 0"
  shows "dispatch_found h x left av name v d u =
         (if flags v AND VERB_ONLINE_ONLY h \<noteq> 0 then fst (running_in_chroot_or_offline x)
          else [],
          Return (must_be_root x))"
proof (cases "flags v AND VERB_ONLINE_ONLY h \<noteq> 0")
  case True
  obtain l b where r: "running_in_chroot_or_offline x = (l, b)"
    by (cases "running_in_chroot_or_offline x")
  with True assms(2) have "\<not> b" by simp
  with True r assms(3,4) show ?thesis
    by (simp add: dispatch_found_valid [OF assms(1)])
next
  case False
  with assms(3,4) show ?thesis
    by (simp add: dispatch_found_valid [OF assms(1)])
qed

lemma dispatch_found_call:
  assumes "count_valid h v left"
    and "\<not> (flags v AND VERB_ONLINE_ONLY h \<noteq> 0 \<and> snd (running_in_chroot_or_offline x))"
    and "\<not> (flags v AND VERB_MUST_BE_ROOT h \<noteq> 0 \<and> sint (must_be_root x) < 0)"
  shows "dispatch_found h x left av name v d u =
         (if flags v AND VERB_ONLINE_ONLY h \<noteq> 0 then fst (running_in_chroot_or_offline x)
          else [],
          case name of
            Some n \<Rightarrow> Call d left (drop (nat (sint (optind x))) av) u
          | None \<Rightarrow> Call d 1 [Some (verb v), None] u)"
proof (cases "flags v AND VERB_ONLINE_ONLY h \<noteq> 0")
  case True
  obtain l b where r: "running_in_chroot_or_offline x = (l, b)"
    by (cases "running_in_chroot_or_offline x")
  with True assms(2) have "\<not> b" by simp
  with True r assms(3) show ?thesis
    by (auto simp: dispatch_found_valid [OF assms(1)])
next
  case False
  with assms(3) show ?thesis
    by (auto simp: dispatch_found_valid [OF assms(1)])
qed

subsection \<open>The scenario, evaluated\<close>

lemma ex_asserts: "asserts (sys 1 g c r) 2 [Some ''systemctl'', Some ''restart'', None] tbl"
  by (simp add: asserts_def sys_def tbl_def)

lemma ex_argv: "argv_at [Some ''systemctl'', Some ''restart'', None] (optind (sys 1 g c r)) = Inr (Some ''restart'')"
  by (simp add: argv_at_def sys_def)

lemma ex_find: "find_verb hdr (Some ''restart'') tbl = Match (tbl ! 1) H2"
  by (simp add: tbl_def found_def)

lemma ex_flags: "flags (tbl ! 1) AND VERB_ONLINE_ONLY hdr \<noteq> 0" "flags (tbl ! 1) AND VERB_MUST_BE_ROOT hdr \<noteq> 0"
  by (simp_all add: tbl_def hdr_def)

lemma ex_valid: "count_valid hdr (tbl ! 1) 1"
  by (simp add: tbl_def hdr_def count_valid_def)

lemma tbl_split: "tbl = [tbl ! 0, tbl ! 1] @ tbl ! 2 # []"
  by (simp add: tbl_def)

lemma tbl_bounds_split: "tbl_bounds = [tbl_bounds ! 0, tbl_bounds ! 1] @ tbl_bounds ! 2 # []"
  by (simp add: tbl_bounds_def)

subsection \<open>The restricted-environment predicate\<close>

text \<open>
  Claim C8. \<open>running_in_chroot_or_offline\<close> returns true, with nothing logged, whenever
  \<open>getenv_bool("SYSTEMD_OFFLINE")\<close> is positive (the override parses to true), and false
  whenever it is 0 (parses to false). When it is negative (the variable is absent or does
  not parse) the error is logged at debug level first and the value returned is true
  exactly when \<open>running_in_chroot\<close> is positive. The probe is consulted in that case
  only: with a valid override the outcome is the same whatever the probe would return.
\<close>

theorem running_in_chroot_or_offline_override:
  "(0 < sint (getenv_bool x ''SYSTEMD_OFFLINE'') \<longrightarrow>
      running_in_chroot_or_offline x = ([], True)) \<and>
   (getenv_bool x ''SYSTEMD_OFFLINE'' = 0 \<longrightarrow>
      running_in_chroot_or_offline x = ([], False)) \<and>
   (sint (getenv_bool x ''SYSTEMD_OFFLINE'') < 0 \<longrightarrow>
      snd (running_in_chroot_or_offline x) = (0 < sint (running_in_chroot x)) \<and>
      hd (fst (running_in_chroot_or_offline x)) =
        Log LOG_DEBUG (getenv_bool x ''SYSTEMD_OFFLINE'') ''Parsing SYSTEMD_OFFLINE: %m'') \<and>
   (0 \<le> sint (getenv_bool x ''SYSTEMD_OFFLINE'') \<longrightarrow>
      running_in_chroot_or_offline (x\<lparr>running_in_chroot := p\<rparr>) =
      running_in_chroot_or_offline x)"
  by (auto simp: running_in_chroot_or_offline_def Let_def)

text \<open>
  The three cases at work: the override set to a truthy value, set to a falsy value while
  the probe reports a chroot, and unset (\<open>getenv_bool\<close> returns an error) in a chroot.
\<close>

theorem running_in_chroot_or_offline_override_witness:
  "running_in_chroot_or_offline (sys 1 1 0 0) = ([], True) \<and>
   running_in_chroot_or_offline (sys 1 0 1 0) = ([], False) \<and>
   snd (running_in_chroot_or_offline (sys 1 (- 6) 1 0))"
  using running_in_chroot_or_offline_override [of "sys 1 1 0 0"] running_in_chroot_or_offline_override [of "sys 1 0 1 0"] running_in_chroot_or_offline_override [of "sys 1 (- 6) 1 0"]
  by (simp add: sys_def)


lemma offline_probe_failure:
  assumes "sint (getenv_bool x ''SYSTEMD_OFFLINE'') < 0" and "sint (running_in_chroot x) < 0"
  shows "running_in_chroot_or_offline x =
         ([Log LOG_DEBUG (getenv_bool x ''SYSTEMD_OFFLINE'') ''Parsing SYSTEMD_OFFLINE: %m'',
           Log LOG_DEBUG (running_in_chroot x) ''running_in_chroot(): %m''], False)"
  using assms by (simp add: running_in_chroot_or_offline_def)

text \<open>
  Claim C10. When \<open>getenv_bool("SYSTEMD_OFFLINE")\<close> returns an error and so does
  \<open>running_in_chroot()\<close>, \<open>running_in_chroot_or_offline\<close> logs both errors at debug
  level, the probe's after the override's, and returns false. \<open>dispatch_verb\<close> then goes
  on with a verb flagged \<open>VERB_ONLINE_ONLY\<close>: once the argument count is valid and the
  privilege check does not fail, the handler is called.
\<close>

theorem probe_error_means_not_restricted:
  assumes "sint (getenv_bool x ''SYSTEMD_OFFLINE'') < 0" and "sint (running_in_chroot x) < 0"
  shows "running_in_chroot_or_offline x =
           ([Log LOG_DEBUG (getenv_bool x ''SYSTEMD_OFFLINE'') ''Parsing SYSTEMD_OFFLINE: %m'',
             Log LOG_DEBUG (running_in_chroot x) ''running_in_chroot(): %m''], False) \<and>
         (asserts x argc av verbs \<and> argv_at av (optind x) = Inr name \<and>
          find_verb h name verbs = Match v d \<and> flags v AND VERB_ONLINE_ONLY h \<noteq> 0 \<and>
          count_valid h v (if name = None then 1 else argc - optind x) \<and>
          \<not> (flags v AND VERB_MUST_BE_ROOT h \<noteq> 0 \<and> sint (must_be_root x) < 0) \<longrightarrow>
          dispatch_verb h x argc av verbs u =
            Inr ([Log LOG_DEBUG (getenv_bool x ''SYSTEMD_OFFLINE'')
                    ''Parsing SYSTEMD_OFFLINE: %m'',
                  Log LOG_DEBUG (running_in_chroot x) ''running_in_chroot(): %m''],
                 case name of
                   Some n \<Rightarrow> Call d (argc - optind x) (drop (nat (sint (optind x))) av) u
                 | None \<Rightarrow> Call d 1 [Some (verb v), None] u))"
proof (intro conjI impI)
  show off: "running_in_chroot_or_offline x =
           ([Log LOG_DEBUG (getenv_bool x ''SYSTEMD_OFFLINE'') ''Parsing SYSTEMD_OFFLINE: %m'',
             Log LOG_DEBUG (running_in_chroot x) ''running_in_chroot(): %m''], False)"
    using assms by (rule offline_probe_failure)
  assume a: "asserts x argc av verbs \<and> argv_at av (optind x) = Inr name \<and>
          find_verb h name verbs = Match v d \<and> flags v AND VERB_ONLINE_ONLY h \<noteq> 0 \<and>
          count_valid h v (if name = None then 1 else argc - optind x) \<and>
          \<not> (flags v AND VERB_MUST_BE_ROOT h \<noteq> 0 \<and> sint (must_be_root x) < 0)"
  then have "dispatch_verb h x argc av verbs u =
      Inr (dispatch_found h x (if name = None then 1 else argc - optind x) av name v d u)"
    by (simp add: dispatch_verb_Match)
  moreover from off have "\<not> (flags v AND VERB_ONLINE_ONLY h \<noteq> 0 \<and> snd (running_in_chroot_or_offline x))"
    by simp
  ultimately show "dispatch_verb h x argc av verbs u =
            Inr ([Log LOG_DEBUG (getenv_bool x ''SYSTEMD_OFFLINE'')
                    ''Parsing SYSTEMD_OFFLINE: %m'',
                  Log LOG_DEBUG (running_in_chroot x) ''running_in_chroot(): %m''],
                 case name of
                   Some n \<Rightarrow> Call d (argc - optind x) (drop (nat (sint (optind x))) av) u
                 | None \<Rightarrow> Call d 1 [Some (verb v), None] u)"
    using a off by (simp add: dispatch_found_call split: option.splits)
qed

text \<open>
  \<open>restart\<close> in the scenario, with \<open>SYSTEMD_OFFLINE\<close> unset and a probe that fails: the
  handler of \<open>restart\<close> is called.
\<close>

theorem probe_error_means_not_restricted_witness:
  "running_in_chroot_or_offline (sys 1 (- 6) (- 2) 0) =
     ([Log LOG_DEBUG (- 6) ''Parsing SYSTEMD_OFFLINE: %m'',
       Log LOG_DEBUG (- 2) ''running_in_chroot(): %m''], False) \<and>
   dispatch_verb hdr (sys 1 (- 6) (- 2) 0) 2 [Some ''systemctl'', Some ''restart'', None] tbl () =
     Inr ([Log LOG_DEBUG (- 6) ''Parsing SYSTEMD_OFFLINE: %m'',
           Log LOG_DEBUG (- 2) ''running_in_chroot(): %m''],
          Call H2 1 [Some ''restart'', None] ())"
  using probe_error_means_not_restricted [of "sys 1 (- 6) (- 2) 0" 2 "[Some ''systemctl'', Some ''restart'', None]" tbl
      "Some ''restart''" hdr "tbl ! 1" H2 "()"]
    ex_asserts [of "- 6" "- 2" 0] ex_argv [of "- 6" "- 2" 0] ex_find ex_flags ex_valid
  by (simp add: sys_def)


subsection \<open>Argument-count validation\<close>

lemma dispatch_verb_no_err:
  assumes "asserts x argc av verbs" and "argv_at av (optind x) = Inr name"
    and "find_verb h name verbs = Match v d"
    and "count_valid h v (if name = None then 1 else argc - optind x)"
    and "e \<in> set (diagnostics (dispatch_verb h x argc av verbs u))"
  shows "level e \<noteq> LOG_ERR"
proof -
  let ?left = "if name = None then 1 else argc - optind x"
  have dv: "dispatch_verb h x argc av verbs u =
      Inr (dispatch_found h x ?left av name v d u)"
    using assms(1-3) by (rule dispatch_verb_Match)
  obtain l b where r: "running_in_chroot_or_offline x = (l, b)"
    by (cases "running_in_chroot_or_offline x")
  have dbg: "\<And>e. e \<in> set l \<Longrightarrow> level e = LOG_DEBUG"
    using offline_logs_debug [of _ x] r by simp
  from assms(5) have "e \<in> set l \<or> level e = LOG_INFO"
    unfolding dv diagnostics_def dispatch_found_valid [OF assms(4)]
    by (auto simp: r split: if_splits)
  with dbg show ?thesis by auto
qed

text \<open>
  Claim C3. For the entry the lookup matched and the effective argument count \<open>left\<close>
  (1 when no verb was named, \<open>argc - optind\<close> otherwise), a non-negative \<open>int\<close>: when
  the minimum is not \<open>VERB_ANY\<close> and the count is below it, \<open>dispatch_verb\<close> logs
  "Too few arguments." and returns \<open>-EINVAL\<close>; when that test does not fire, the maximum
  is not \<open>VERB_ANY\<close> and the count exceeds it, it logs "Too many arguments." and
  returns \<open>-EINVAL\<close>. The minimum is tested first: a count that fails both tests gets
  the first answer. A bound equal to \<open>VERB_ANY\<close> never produces its diagnostic, and a
  count within both bounds produces no error diagnostic at all. Both error results are
  \<open>Return\<close>s: no handler is called.
\<close>

theorem argument_count_validation:
  assumes "asserts x argc av verbs" and "argv_at av (optind x) = Inr name"
    and "find_verb h name verbs = Match v d"
    and "left = (if name = None then 1 else argc - optind x)"
  shows "0 \<le> sint left \<and>
    (min_args v \<noteq> VERB_ANY h \<and> sint left < uint (min_args v) \<longrightarrow>
       dispatch_verb h x argc av verbs u =
         Inr ([Log LOG_ERR 0 ''Too few arguments.''], Return (- EINVAL))) \<and>
    (\<not> (min_args v \<noteq> VERB_ANY h \<and> sint left < uint (min_args v)) \<and>
     max_args v \<noteq> VERB_ANY h \<and> uint (max_args v) < sint left \<longrightarrow>
       dispatch_verb h x argc av verbs u =
         Inr ([Log LOG_ERR 0 ''Too many arguments.''], Return (- EINVAL))) \<and>
    (min_args v = VERB_ANY h \<longrightarrow>
       Log LOG_ERR 0 ''Too few arguments.'' \<notin>
         set (diagnostics (dispatch_verb h x argc av verbs u))) \<and>
    (max_args v = VERB_ANY h \<longrightarrow>
       Log LOG_ERR 0 ''Too many arguments.'' \<notin>
         set (diagnostics (dispatch_verb h x argc av verbs u))) \<and>
    (\<not> (min_args v \<noteq> VERB_ANY h \<and> sint left < uint (min_args v)) \<and>
     \<not> (max_args v \<noteq> VERB_ANY h \<and> uint (max_args v) < sint left) \<longrightarrow>
       (\<forall>e\<in>set (diagnostics (dispatch_verb h x argc av verbs u)). level e \<noteq> LOG_ERR))"
proof -
  have nn: "0 \<le> sint left"
    unfolding assms(4) using assms(1,2) by (rule effective_nonneg)
  have lo: "left < min_args v \<longleftrightarrow> sint left < uint (min_args v)"
    using nn by (rule count_below)
  have hi: "max_args v < left \<longleftrightarrow> uint (max_args v) < sint left"
    using nn by (rule count_above)
  have dv: "dispatch_verb h x argc av verbs u =
      Inr (dispatch_found h x left av name v d u)"
    unfolding assms(4) using assms(1-3) by (rule dispatch_verb_Match)
  have few: "dispatch_verb h x argc av verbs u =
         Inr ([Log LOG_ERR 0 ''Too few arguments.''], Return (- EINVAL))"
    if "min_args v \<noteq> VERB_ANY h \<and> sint left < uint (min_args v)"
    using that by (simp add: dv lo dispatch_found_too_few)
  have many: "dispatch_verb h x argc av verbs u =
         Inr ([Log LOG_ERR 0 ''Too many arguments.''], Return (- EINVAL))"
    if "\<not> (min_args v \<noteq> VERB_ANY h \<and> sint left < uint (min_args v)) \<and>
     max_args v \<noteq> VERB_ANY h \<and> uint (max_args v) < sint left"
  proof -
    from that have "\<not> (min_args v \<noteq> VERB_ANY h \<and> left < min_args v)"
      and "max_args v \<noteq> VERB_ANY h" and "max_args v < left"
      by (simp_all add: lo hi)
    then show ?thesis by (simp add: dv dispatch_found_too_many)
  qed
  have valid: "\<forall>e\<in>set (diagnostics (dispatch_verb h x argc av verbs u)). level e \<noteq> LOG_ERR"
    if "count_valid h v left"
    using dispatch_verb_no_err [OF assms(1-3)] that unfolding assms(4) by blast
  have nofew: "Log LOG_ERR 0 ''Too few arguments.'' \<notin>
         set (diagnostics (dispatch_verb h x argc av verbs u))"
    if "min_args v = VERB_ANY h"
  proof (cases "max_args v \<noteq> VERB_ANY h \<and> max_args v < left")
    case True
    with that show ?thesis
      by (simp add: dv diagnostics_def dispatch_found_too_many)
  next
    case False
    with that have "count_valid h v left" by (simp add: count_valid_def)
    from valid [OF this] show ?thesis by force
  qed
  have nomany: "Log LOG_ERR 0 ''Too many arguments.'' \<notin>
         set (diagnostics (dispatch_verb h x argc av verbs u))"
    if "max_args v = VERB_ANY h"
  proof (cases "min_args v \<noteq> VERB_ANY h \<and> left < min_args v")
    case True
    then show ?thesis
      by (simp add: dv diagnostics_def dispatch_found_too_few)
  next
    case False
    with that have "count_valid h v left" by (simp add: count_valid_def)
    from valid [OF this] show ?thesis by force
  qed
  have ok: "\<forall>e\<in>set (diagnostics (dispatch_verb h x argc av verbs u)). level e \<noteq> LOG_ERR"
    if "\<not> (min_args v \<noteq> VERB_ANY h \<and> sint left < uint (min_args v)) \<and>
     \<not> (max_args v \<noteq> VERB_ANY h \<and> uint (max_args v) < sint left)"
  proof -
    from that have "count_valid h v left" by (simp add: count_valid_def lo hi)
    then show ?thesis by (rule valid)
  qed
  from nn few many nofew nomany ok show ?thesis by blast
qed

text \<open>
  The example of the specification, minimum 2 and maximum 4: \<open>link\<close> alone (count 1) has
  too few arguments, \<open>link a b c d\<close> (count 5) too many, and \<open>log a b c d\<close>, whose maximum
  is the sentinel, has not.
\<close>

theorem argument_count_validation_witness:
  "dispatch_verb hdr (sys 1 0 0 0) 2 [Some ''ctl'', Some ''link'', None] tbl_bounds () =
     Inr ([Log LOG_ERR 0 ''Too few arguments.''], Return (- EINVAL)) \<and>
   dispatch_verb hdr (sys 1 0 0 0) 6
       [Some ''ctl'', Some ''link'', Some ''a'', Some ''b'', Some ''c'', Some ''d'', None]
       tbl_bounds () =
     Inr ([Log LOG_ERR 0 ''Too many arguments.''], Return (- EINVAL)) \<and>
   Log LOG_ERR 0 ''Too many arguments.'' \<notin>
     set (diagnostics (dispatch_verb hdr (sys 1 0 0 0) 6
       [Some ''ctl'', Some ''log'', Some ''a'', Some ''b'', Some ''c'', Some ''d'', None]
       tbl_bounds ()))"
proof -
  let ?x = "sys 1 0 0 0"
  let ?few = "[Some ''ctl'', Some ''link'', None]"
  let ?many = "[Some ''ctl'', Some ''link'', Some ''a'', Some ''b'', Some ''c'', Some ''d'', None]"
  let ?any = "[Some ''ctl'', Some ''log'', Some ''a'', Some ''b'', Some ''c'', Some ''d'', None]"
  have a1: "asserts ?x 2 ?few tbl_bounds" and a2: "asserts ?x 6 ?many tbl_bounds"
    and a3: "asserts ?x 6 ?any tbl_bounds"
    by (simp_all add: asserts_def sys_def tbl_bounds_def)
  have n1: "argv_at ?few (optind ?x) = Inr (Some ''link'')"
    and n2: "argv_at ?many (optind ?x) = Inr (Some ''link'')"
    and n3: "argv_at ?any (optind ?x) = Inr (Some ''log'')"
    by (simp_all add: argv_at_def sys_def)
  have f1: "find_verb hdr (Some ''link'') tbl_bounds = Match (tbl_bounds ! 0) H1"
    and f2: "find_verb hdr (Some ''log'') tbl_bounds = Match (tbl_bounds ! 1) H2"
    by (simp_all add: tbl_bounds_def found_def)
  have l1: "(1 :: c_int) = (if Some ''link'' = None then 1 else 2 - optind ?x)"
    and l2: "(5 :: c_int) = (if Some ''link'' = None then 1 else 6 - optind ?x)"
    and l3: "(5 :: c_int) = (if Some ''log'' = None then 1 else 6 - optind ?x)"
    by (simp_all add: sys_def)
  show ?thesis
    using argument_count_validation [OF a1 n1 f1 l1, of "()"]
      argument_count_validation [OF a2 n2 f1 l2, of "()"]
      argument_count_validation [OF a3 n3 f2 l3, of "()"]
    by (simp add: tbl_bounds_def hdr_def)
qed


subsection \<open>The restricted-environment gate\<close>

text \<open>
  Claim C4. For the entry the lookup matched, flagged \<open>VERB_ONLINE_ONLY\<close>, when
  \<open>running_in_chroot_or_offline\<close> returns true: if the argument count is valid,
  \<open>dispatch_verb\<close> returns 0, the ordinary success value, and the one diagnostic it emits is
  the notice at info level, after whatever the predicate itself logged (debug lines only);
  if the count is not valid the result is one of the two argument-count errors, so the
  no-op is reached only once the validation has passed. No handler is called either way,
  and as a result the no-op is the value 0 with the state of the process unchanged.
\<close>

theorem online_only_skip:
  assumes "asserts x argc av verbs" and "argv_at av (optind x) = Inr name"
    and "find_verb h name verbs = Match v d"
    and "left = (if name = None then 1 else argc - optind x)"
    and "flags v AND VERB_ONLINE_ONLY h \<noteq> 0"
    and "running_in_chroot_or_offline x = (l, True)"
  shows "(count_valid h v left \<longrightarrow>
            dispatch_verb h x argc av verbs u =
              Inr (l @ [Log LOG_INFO 0
                         (case name of
                            Some n \<Rightarrow> ''Running in chroot, ignoring request: '' @ n
                          | None \<Rightarrow> ''Running in chroot, ignoring request.'')],
                   Return 0)) \<and>
         (\<not> count_valid h v left \<longrightarrow>
            dispatch_verb h x argc av verbs u =
              Inr ([Log LOG_ERR 0 ''Too few arguments.''], Return (- EINVAL)) \<or>
            dispatch_verb h x argc av verbs u =
              Inr ([Log LOG_ERR 0 ''Too many arguments.''], Return (- EINVAL))) \<and>
         (\<forall>e\<in>set l. level e = LOG_DEBUG) \<and>
         \<not> invokes (dispatch_verb h x argc av verbs u) \<and>
         run_exit (Return 0 :: ('u, 's) exit) s = (0, s)"
proof -
  have dv: "dispatch_verb h x argc av verbs u =
      Inr (dispatch_found h x left av name v d u)"
    unfolding assms(4) using assms(1-3) by (rule dispatch_verb_Match)
  have skip: "dispatch_verb h x argc av verbs u =
              Inr (l @ [Log LOG_INFO 0
                         (case name of
                            Some n \<Rightarrow> ''Running in chroot, ignoring request: '' @ n
                          | None \<Rightarrow> ''Running in chroot, ignoring request.'')],
                   Return 0)"
    if "count_valid h v left"
    unfolding dv using that assms(5,6) by (simp add: dispatch_found_skip)
  have err: "dispatch_verb h x argc av verbs u =
              Inr ([Log LOG_ERR 0 ''Too few arguments.''], Return (- EINVAL)) \<or>
            dispatch_verb h x argc av verbs u =
              Inr ([Log LOG_ERR 0 ''Too many arguments.''], Return (- EINVAL))"
    if "\<not> count_valid h v left"
    unfolding dv using dispatch_found_invalid [OF that, of x av name d u] by simp
  have dbg: "\<forall>e\<in>set l. level e = LOG_DEBUG"
    using offline_logs_debug [of _ x] assms(6) by simp
  have ninv: "\<not> invokes (dispatch_verb h x argc av verbs u)"
  proof (cases "count_valid h v left")
    case True
    from skip [OF this] show ?thesis by (simp add: invokes_def)
  next
    case False
    from err [OF this] show ?thesis by (auto simp: invokes_def)
  qed
  from skip err dbg ninv show ?thesis by simp
qed

text \<open>
  \<open>restart\<close> in the scenario, in a chroot with \<open>SYSTEMD_OFFLINE\<close> unset: the notice
  follows the debug line of the predicate, and 0 is returned.
\<close>

theorem online_only_skip_witness:
  "dispatch_verb hdr (sys 1 (- 6) 1 0) 2 [Some ''systemctl'', Some ''restart'', None] tbl () =
     Inr ([Log LOG_DEBUG (- 6) ''Parsing SYSTEMD_OFFLINE: %m'',
           Log LOG_INFO 0 ''Running in chroot, ignoring request: restart''], Return 0)"
proof -
  have r: "running_in_chroot_or_offline (sys 1 (- 6) 1 0) =
      ([Log LOG_DEBUG (- 6) ''Parsing SYSTEMD_OFFLINE: %m''], True)"
    by (simp add: running_in_chroot_or_offline_def sys_def)
  have l: "(1 :: c_int) = (if Some ''restart'' = None then 1 else 2 - optind (sys 1 (- 6) 1 0))"
    by (simp add: sys_def)
  show ?thesis
    using online_only_skip [OF ex_asserts ex_argv ex_find l ex_flags(1) r, of "()"] ex_valid
    by simp
qed

subsection \<open>The privilege check\<close>

text \<open>
  Claim C5. For the entry the lookup matched, flagged \<open>VERB_MUST_BE_ROOT\<close>, when
  \<open>must_be_root\<close> returns an error (a negative value): no handler is called, and when
  the argument count is valid and the restricted-environment gate did not skip the verb,
  \<open>dispatch_verb\<close> returns the very value \<open>must_be_root\<close> returned.
\<close>

theorem privilege_check_failure:
  assumes "asserts x argc av verbs" and "argv_at av (optind x) = Inr name"
    and "find_verb h name verbs = Match v d"
    and "left = (if name = None then 1 else argc - optind x)"
    and "flags v AND VERB_MUST_BE_ROOT h \<noteq> 0"
    and "sint (must_be_root x) < 0"
  shows "\<not> invokes (dispatch_verb h x argc av verbs u) \<and>
         (count_valid h v left \<and>
          \<not> (flags v AND VERB_ONLINE_ONLY h \<noteq> 0 \<and> snd (running_in_chroot_or_offline x)) \<longrightarrow>
            dispatch_verb h x argc av verbs u =
              Inr (if flags v AND VERB_ONLINE_ONLY h \<noteq> 0
                   then fst (running_in_chroot_or_offline x) else [],
                   Return (must_be_root x)))"
proof -
  have dv: "dispatch_verb h x argc av verbs u =
      Inr (dispatch_found h x left av name v d u)"
    unfolding assms(4) using assms(1-3) by (rule dispatch_verb_Match)
  have refused: "dispatch_verb h x argc av verbs u =
              Inr (if flags v AND VERB_ONLINE_ONLY h \<noteq> 0
                   then fst (running_in_chroot_or_offline x) else [],
                   Return (must_be_root x))"
    if "count_valid h v left"
      and "\<not> (flags v AND VERB_ONLINE_ONLY h \<noteq> 0 \<and> snd (running_in_chroot_or_offline x))"
    unfolding dv using dispatch_found_not_root [OF that assms(5,6), of av name d u] by simp
  have ninv: "\<not> invokes (dispatch_verb h x argc av verbs u)"
  proof (cases "count_valid h v left")
    case False
    from dispatch_found_invalid [OF this, of x av name d u] show ?thesis
      by (auto simp: dv invokes_def)
  next
    case True
    show ?thesis
    proof (cases "flags v AND VERB_ONLINE_ONLY h \<noteq> 0 \<and> snd (running_in_chroot_or_offline x)")
      case False
      from refused [OF True this] show ?thesis by (simp add: invokes_def)
    next
      case skip: True
      then have "running_in_chroot_or_offline x = (fst (running_in_chroot_or_offline x), True)"
        by (cases "running_in_chroot_or_offline x") simp
      with True skip show ?thesis
        by (simp add: dv invokes_def
            dispatch_found_skip [where l = "fst (running_in_chroot_or_offline x)"])
    qed
  qed
  from ninv refused show ?thesis by simp
qed

text \<open>
  \<open>restart\<close> in the scenario, online, with a privilege check that fails with -1.
\<close>

theorem privilege_check_failure_witness:
  "dispatch_verb hdr (sys 1 0 0 (- 1)) 2 [Some ''systemctl'', Some ''restart'', None] tbl () =
     Inr ([], Return (- 1))"
proof -
  have l: "(1 :: c_int) = (if Some ''restart'' = None then 1 else 2 - optind (sys 1 0 0 (- 1)))"
    and m: "sint (must_be_root (sys 1 0 0 (- 1))) < 0"
    and r: "running_in_chroot_or_offline (sys 1 0 0 (- 1)) = ([], False)"
    by (simp_all add: sys_def running_in_chroot_or_offline_def)
  show ?thesis
    using privilege_check_failure [OF ex_asserts ex_argv ex_find l ex_flags(2) m, of "()"] ex_valid r
    by (simp add: sys_def)
qed


subsection \<open>Lookup failure\<close>

text \<open>
  Claim C6. When the scan reaches the entry \<open>t\<close> that ends the table (its handler is
  NULL) and no entry before it matched, \<open>dispatch_verb\<close> returns \<open>-EINVAL\<close> without
  calling a handler: if a verb \<open>n\<close> was named and no entry before \<open>t\<close> has that name, the
  diagnostic is "Unknown operation n."; if none was named and no entry before \<open>t\<close> has the
  flag \<open>VERB_DEFAULT\<close>, it is "Requires operation parameter.".
\<close>

theorem lookup_failure:
  assumes "asserts x argc av (pre @ t # rest)" and "argv_at av (optind x) = Inr name"
    and "dispatch t = None" and "\<forall>w\<in>set pre. dispatch w \<noteq> None"
  shows "(\<forall>n. name = Some n \<and> (\<forall>w\<in>set pre. verb w \<noteq> n) \<longrightarrow>
            dispatch_verb h x argc av (pre @ t # rest) u =
              Inr ([Log LOG_ERR 0 (''Unknown operation '' @ n @ ''.'')], Return (- EINVAL))) \<and>
         (name = None \<and> (\<forall>w\<in>set pre. flags w AND VERB_DEFAULT h = 0) \<longrightarrow>
            dispatch_verb h x argc av (pre @ t # rest) u =
              Inr ([Log LOG_ERR 0 ''Requires operation parameter.''], Return (- EINVAL)))"
proof (intro conjI allI impI)
  fix n
  assume a: "name = Some n \<and> (\<forall>w\<in>set pre. verb w \<noteq> n)"
  with assms(4) have "\<forall>w\<in>set pre. dispatch w \<noteq> None \<and> \<not> found h name w"
    by (auto simp: found_def)
  then have "find_verb h name (pre @ t # rest) = AtEnd"
    using assms(3) by (rule find_verb_AtEnd)
  from dispatch_verb_AtEnd [OF assms(1,2) this] a
  show "dispatch_verb h x argc av (pre @ t # rest) u =
      Inr ([Log LOG_ERR 0 (''Unknown operation '' @ n @ ''.'')], Return (- EINVAL))"
    by simp
next
  assume a: "name = None \<and> (\<forall>w\<in>set pre. flags w AND VERB_DEFAULT h = 0)"
  with assms(4) have "\<forall>w\<in>set pre. dispatch w \<noteq> None \<and> \<not> found h name w"
    by (simp add: found_def)
  then have "find_verb h name (pre @ t # rest) = AtEnd"
    using assms(3) by (rule find_verb_AtEnd)
  from dispatch_verb_AtEnd [OF assms(1,2) this] a
  show "dispatch_verb h x argc av (pre @ t # rest) u =
      Inr ([Log LOG_ERR 0 ''Requires operation parameter.''], Return (- EINVAL))"
    by simp
qed

text \<open>
  \<open>bogus\<close> is no verb of the scenario, and the table of the argument-count example has no
  default verb.
\<close>

theorem lookup_failure_witness:
  "dispatch_verb hdr (sys 1 0 0 0) 2 [Some ''systemctl'', Some ''bogus'', None] tbl () =
     Inr ([Log LOG_ERR 0 ''Unknown operation bogus.''], Return (- EINVAL)) \<and>
   dispatch_verb hdr (sys 1 0 0 0) 1 [Some ''ctl'', None] tbl_bounds () =
     Inr ([Log LOG_ERR 0 ''Requires operation parameter.''], Return (- EINVAL))"
proof -
  let ?x = "sys 1 0 0 0"
  have a1: "asserts ?x 2 [Some ''systemctl'', Some ''bogus'', None]
      ([tbl ! 0, tbl ! 1] @ tbl ! 2 # [])"
    and a2: "asserts ?x 1 [Some ''ctl'', None]
      ([tbl_bounds ! 0, tbl_bounds ! 1] @ tbl_bounds ! 2 # [])"
    by (simp_all add: asserts_def sys_def tbl_def tbl_bounds_def)
  have n1: "argv_at [Some ''systemctl'', Some ''bogus'', None] (optind ?x) = Inr (Some ''bogus'')"
    and n2: "argv_at [Some ''ctl'', None] (optind ?x) = Inr None"
    by (simp_all add: argv_at_def sys_def)
  have t1: "dispatch (tbl ! 2) = None" and t2: "dispatch (tbl_bounds ! 2) = None"
    by (simp_all add: tbl_def tbl_bounds_def)
  have p1: "\<forall>w\<in>set [tbl ! 0, tbl ! 1]. dispatch w \<noteq> None"
    and p2: "\<forall>w\<in>set [tbl_bounds ! 0, tbl_bounds ! 1]. dispatch w \<noteq> None"
    by (simp_all add: tbl_def tbl_bounds_def)
  have q1: "\<forall>w\<in>set [tbl ! 0, tbl ! 1]. verb w \<noteq> ''bogus''"
    and q2: "\<forall>w\<in>set [tbl_bounds ! 0, tbl_bounds ! 1]. flags w AND VERB_DEFAULT hdr = 0"
    by (simp_all add: tbl_def tbl_bounds_def hdr_def)
  show ?thesis
    using lookup_failure [OF a1 n1 t1 p1, of hdr "()"]
      lookup_failure [OF a2 n2 t2 p2, of hdr "()"] q1 q2
    unfolding tbl_split [symmetric] tbl_bounds_split [symmetric]
    by simp
qed


subsection \<open>Invocation of a named verb\<close>

lemma asserts_first_match:
  assumes "\<forall>w\<in>set pre. dispatch w \<noteq> None" and "dispatch v = Some d"
    and "sint (optind x) \<le> sint argc" and "argv_at av (optind x) = Inr name"
  shows "asserts x argc av (pre @ v # rest)"
proof -
  have "dispatch (hd (pre @ v # rest)) \<noteq> None"
    using assms(1,2) by (cases pre) simp_all
  moreover from assms(4) have "0 \<le> sint (optind x)" and "av \<noteq> []"
    by (auto simp: argv_at_def split: if_splits)
  ultimately show ?thesis
    using assms(3) by (simp add: asserts_def)
qed

text \<open>
  Claim C1, as the specification states it: whenever the verb named at \<open>argv[optind]\<close> is
  the name of a table entry, the handler of that entry is called. The scenario refutes it
  three times, for the verb \<open>restart\<close>: with \<open>restart now x\<close> the argument count is above
  the maximum and the result is the error \<open>-EINVAL\<close>; with \<open>SYSTEMD_OFFLINE\<close> set to true
  the verb is skipped and the result is 0; with a failing privilege check the result is the
  error of the check. No handler is called in any of them.
\<close>

theorem named_verb_not_invoked:
  "asserts (sys 1 0 0 0) 4
     [Some ''systemctl'', Some ''restart'', Some ''now'', Some ''x'', None] tbl \<and>
   argv_at [Some ''systemctl'', Some ''restart'', Some ''now'', Some ''x'', None]
     (optind (sys 1 0 0 0)) = Inr (Some (verb (tbl ! 1))) \<and>
   dispatch_verb hdr (sys 1 0 0 0) 4
     [Some ''systemctl'', Some ''restart'', Some ''now'', Some ''x'', None] tbl () =
     Inr ([Log LOG_ERR 0 ''Too many arguments.''], Return (- EINVAL)) \<and>
   dispatch_verb hdr (sys 1 1 0 0) 2 [Some ''systemctl'', Some ''restart'', None] tbl () =
     Inr ([Log LOG_INFO 0 ''Running in chroot, ignoring request: restart''], Return 0) \<and>
   dispatch_verb hdr (sys 1 0 0 (- 1)) 2 [Some ''systemctl'', Some ''restart'', None] tbl () =
     Inr ([], Return (- 1))"
  by (simp add: dispatch_verb_def dispatch_found_def asserts_def argv_at_def found_def
      running_in_chroot_or_offline_def hdr_def tbl_def sys_def)

text \<open>
  Claim C1, amended: when the verb \<open>n\<close> named at \<open>argv[optind]\<close> is the name of the
  entry \<open>v\<close>, every entry before \<open>v\<close> has a handler and another name (so the table is
  well formed and \<open>v\<close> is the first entry of that name), and moreover the argument count
  \<open>argc - optind\<close> passes the validation, the restricted-environment gate does not skip
  the verb and the privilege check does not fail, then \<open>dispatch_verb\<close> ends in the call
  of the handler of \<open>v\<close> with the count \<open>argc - optind\<close> (the difference of the two
  \<open>int\<close>s, without overflow), the slice \<open>argv + optind\<close>, which starts at the verb, and
  \<open>userdata\<close>; its result is the result of that call.
\<close>

theorem dispatch_named_verb:
  assumes "verbs = pre @ v # rest"
    and "\<forall>w\<in>set pre. dispatch w \<noteq> None \<and> verb w \<noteq> n"
    and "dispatch v = Some d" and "verb v = n"
    and "sint (optind x) \<le> sint argc"
    and "argv_at av (optind x) = Inr (Some n)"
    and "count_valid h v (argc - optind x)"
    and "\<not> (flags v AND VERB_ONLINE_ONLY h \<noteq> 0 \<and> snd (running_in_chroot_or_offline x))"
    and "\<not> (flags v AND VERB_MUST_BE_ROOT h \<noteq> 0 \<and> sint (must_be_root x) < 0)"
  shows "dispatch_verb h x argc av verbs u =
           Inr (if flags v AND VERB_ONLINE_ONLY h \<noteq> 0
                then fst (running_in_chroot_or_offline x) else [],
                Call d (argc - optind x) (drop (nat (sint (optind x))) av) u) \<and>
         sint (argc - optind x) = sint argc - sint (optind x) \<and>
         hd (drop (nat (sint (optind x))) av) = Some n \<and>
         run_exit (Call d (argc - optind x) (drop (nat (sint (optind x))) av) u) s =
           d (argc - optind x) (drop (nat (sint (optind x))) av) u s"
proof -
  from assms(2) have pre: "\<forall>w\<in>set pre. dispatch w \<noteq> None"
    and nomatch: "\<forall>w\<in>set pre. dispatch w \<noteq> None \<and> \<not> found h (Some n) w"
    by (auto simp: found_def)
  have a: "asserts x argc av verbs"
    unfolding assms(1) using pre assms(3,5,6) by (rule asserts_first_match)
  have "found h (Some n) v"
    using assms(4) by (simp add: found_def)
  with nomatch assms(3) have f: "find_verb h (Some n) verbs = Match v d"
    unfolding assms(1) by (rule find_verb_Match)
  have "dispatch_verb h x argc av verbs u =
      Inr (dispatch_found h x (argc - optind x) av (Some n) v d u)"
    using dispatch_verb_Match [OF a assms(6) f] by simp
  then have call: "dispatch_verb h x argc av verbs u =
           Inr (if flags v AND VERB_ONLINE_ONLY h \<noteq> 0
                then fst (running_in_chroot_or_offline x) else [],
                Call d (argc - optind x) (drop (nat (sint (optind x))) av) u)"
    by (simp add: dispatch_found_call [OF assms(7,8,9)])
  have diff: "sint (argc - optind x) = sint argc - sint (optind x)"
    using a assms(6) by (rule left_in_range(1))
  from assms(6) have "nat (sint (optind x)) < length av"
    and "av ! nat (sint (optind x)) = Some n"
    by (auto simp: argv_at_def split: if_splits)
  then have token: "hd (drop (nat (sint (optind x))) av) = Some n"
    by (simp add: hd_drop_conv_nth)
  from call diff token show ?thesis by simp
qed

text \<open>
  \<open>restart now\<close> in the scenario, online and privileged: the handler of \<open>restart\<close> is
  called with \<open>(2, ["restart", "now"])\<close>.
\<close>

theorem dispatch_named_verb_witness:
  "dispatch_verb hdr (sys 1 0 0 0) 3 [Some ''systemctl'', Some ''restart'', Some ''now'', None]
     tbl () =
     Inr ([], Call H2 2 [Some ''restart'', Some ''now'', None] ()) \<and>
   run_exit (Call H2 2 [Some ''restart'', Some ''now'', None] ()) 0 = (0, 2)"
proof -
  let ?x = "sys 1 0 0 0"
  let ?av = "[Some ''systemctl'', Some ''restart'', Some ''now'', None]"
  have t: "tbl = [tbl ! 0] @ tbl ! 1 # [tbl ! 2]"
    by (simp add: tbl_def)
  have p: "\<forall>w\<in>set [tbl ! 0]. dispatch w \<noteq> None \<and> verb w \<noteq> ''restart''"
    and d: "dispatch (tbl ! 1) = Some H2" and n: "verb (tbl ! 1) = ''restart''"
    by (simp_all add: tbl_def)
  have o: "sint (optind ?x) \<le> sint (3 :: c_int)"
    and a: "argv_at ?av (optind ?x) = Inr (Some ''restart'')"
    by (simp_all add: sys_def argv_at_def)
  have c: "count_valid hdr (tbl ! 1) (3 - optind ?x)"
    by (simp add: count_valid_def tbl_def hdr_def sys_def)
  have g: "\<not> (flags (tbl ! 1) AND VERB_ONLINE_ONLY hdr \<noteq> 0 \<and>
      snd (running_in_chroot_or_offline ?x))"
    and r: "\<not> (flags (tbl ! 1) AND VERB_MUST_BE_ROOT hdr \<noteq> 0 \<and> sint (must_be_root ?x) < 0)"
    by (simp_all add: running_in_chroot_or_offline_def sys_def)
  have e: "running_in_chroot_or_offline ?x = ([], False)"
    by (simp add: running_in_chroot_or_offline_def sys_def)
  show ?thesis
    using dispatch_named_verb [OF t p d n o a c g r, of "()" 0] e
    by (simp add: sys_def H2_def)
qed

subsection \<open>Invocation of the default verb\<close>

text \<open>
  Claim C2, as the specification states it: whenever no verb is named and the table has an
  entry flagged \<open>VERB_DEFAULT\<close>, the handler of that entry is called. Three runs with no
  verb named refute it: the default verb \<open>compare\<close> needs two arguments and the count 1
  is too few; the default verb \<open>start\<close> is online only and skipped when
  \<open>SYSTEMD_OFFLINE\<close> is true; it is root only and refused when the privilege check fails.
\<close>

theorem default_verb_not_invoked:
  "asserts (sys 1 0 0 0) 1 [Some ''ctl'', None] tbl_pair \<and>
   argv_at [Some ''ctl'', None] (optind (sys 1 0 0 0)) = Inr None \<and>
   flags (tbl_pair ! 0) AND VERB_DEFAULT hdr \<noteq> 0 \<and>
   flags (tbl_gated ! 0) AND VERB_DEFAULT hdr \<noteq> 0 \<and>
   dispatch_verb hdr (sys 1 0 0 0) 1 [Some ''ctl'', None] tbl_pair () =
     Inr ([Log LOG_ERR 0 ''Too few arguments.''], Return (- EINVAL)) \<and>
   dispatch_verb hdr (sys 1 1 0 0) 1 [Some ''ctl'', None] tbl_gated () =
     Inr ([Log LOG_INFO 0 ''Running in chroot, ignoring request.''], Return 0) \<and>
   dispatch_verb hdr (sys 1 0 0 (- 1)) 1 [Some ''ctl'', None] tbl_gated () =
     Inr ([], Return (- 1))"
  by (simp add: dispatch_verb_def dispatch_found_def asserts_def argv_at_def found_def
      running_in_chroot_or_offline_def hdr_def tbl_pair_def tbl_gated_def sys_def)
text \<open>
  Claim C2, amended: when no verb is named (\<open>optind = argc\<close> and \<open>argv[argc]\<close> is the
  NULL that ends the vector), \<open>v\<close> is the first entry flagged \<open>VERB_DEFAULT\<close>, every
  entry before it has a handler, and moreover the count 1 passes the validation, the
  restricted-environment gate does not skip the verb and the privilege check does not
  fail, then \<open>dispatch_verb\<close> ends in the call of the handler of \<open>v\<close> with the count 1
  and the synthesized vector that holds the name of \<open>v\<close> and the terminating NULL, not a
  slice of \<open>argv\<close>.
\<close>

theorem dispatch_default_verb:
  assumes "verbs = pre @ v # rest"
    and "\<forall>w\<in>set pre. dispatch w \<noteq> None \<and> flags w AND VERB_DEFAULT h = 0"
    and "dispatch v = Some d" and "flags v AND VERB_DEFAULT h \<noteq> 0"
    and "optind x = argc"
    and "argv_at av argc = Inr None"
    and "count_valid h v 1"
    and "\<not> (flags v AND VERB_ONLINE_ONLY h \<noteq> 0 \<and> snd (running_in_chroot_or_offline x))"
    and "\<not> (flags v AND VERB_MUST_BE_ROOT h \<noteq> 0 \<and> sint (must_be_root x) < 0)"
  shows "dispatch_verb h x argc av verbs u =
           Inr (if flags v AND VERB_ONLINE_ONLY h \<noteq> 0
                then fst (running_in_chroot_or_offline x) else [],
                Call d 1 [Some (verb v), None] u) \<and>
         run_exit (Call d 1 [Some (verb v), None] u) s = d 1 [Some (verb v), None] u s"
proof -
  from assms(2) have pre: "\<forall>w\<in>set pre. dispatch w \<noteq> None"
    and nomatch: "\<forall>w\<in>set pre. dispatch w \<noteq> None \<and> \<not> found h None w"
    by (auto simp: found_def)
  have n: "argv_at av (optind x) = Inr None"
    using assms(5,6) by simp
  have "sint (optind x) \<le> sint argc"
    using assms(5) by simp
  with pre assms(3) have a: "asserts x argc av verbs"
    unfolding assms(1) using n by (rule asserts_first_match)
  have "found h None v"
    using assms(4) by (simp add: found_def)
  with nomatch assms(3) have f: "find_verb h None verbs = Match v d"
    unfolding assms(1) by (rule find_verb_Match)
  have "dispatch_verb h x argc av verbs u = Inr (dispatch_found h x 1 av None v d u)"
    using dispatch_verb_Match [OF a n f] by simp
  then show ?thesis
    by (simp add: dispatch_found_call [OF assms(7,8,9)])
qed

text \<open>
  The scenario with no verb: the handler of \<open>status\<close> is called with
  \<open>(1, ["status"])\<close>.
\<close>

theorem dispatch_default_verb_witness:
  "dispatch_verb hdr (sys 1 0 0 0) 1 [Some ''systemctl'', None] tbl () =
     Inr ([], Call H1 1 [Some ''status'', None] ()) \<and>
   run_exit (Call H1 1 [Some ''status'', None] ()) 0 = (0, 1)"
proof -
  let ?x = "sys 1 0 0 0"
  have t: "tbl = [] @ tbl ! 0 # [tbl ! 1, tbl ! 2]"
    by (simp add: tbl_def)
  have p: "\<forall>w\<in>set []. dispatch w \<noteq> None \<and> flags w AND VERB_DEFAULT hdr = 0"
    by simp
  have d: "dispatch (tbl ! 0) = Some H1" and n: "flags (tbl ! 0) AND VERB_DEFAULT hdr \<noteq> 0"
    by (simp_all add: tbl_def hdr_def)
  have o: "optind ?x = 1" and a: "argv_at [Some ''systemctl'', None] 1 = Inr None"
    by (simp_all add: sys_def argv_at_def)
  have c: "count_valid hdr (tbl ! 0) 1"
    by (simp add: count_valid_def tbl_def hdr_def)
  have g: "\<not> (flags (tbl ! 0) AND VERB_ONLINE_ONLY hdr \<noteq> 0 \<and>
      snd (running_in_chroot_or_offline ?x))"
    and r: "\<not> (flags (tbl ! 0) AND VERB_MUST_BE_ROOT hdr \<noteq> 0 \<and> sint (must_be_root ?x) < 0)"
    by (simp_all add: tbl_def hdr_def sys_def)
  have e: "flags (tbl ! 0) AND VERB_ONLINE_ONLY hdr = 0" "verb (tbl ! 0) = ''status''"
    by (simp_all add: tbl_def hdr_def)
  show ?thesis
    using dispatch_default_verb [OF t p d n o a c g r, of "()" 0] e
    by (simp add: H1_def)
qed



subsection \<open>Error codes\<close>




subsection \<open>The read of the verb name\<close>

text \<open>
  Claim C9, as the specification states it: under \<open>argc \<ge> 0\<close>, \<open>optind \<le> argc\<close> and an
  argument vector terminated at index \<open>argc\<close>, the read \<open>argv[optind]\<close> is safe.
  \<open>optind\<close> is an \<open>int\<close>: with \<open>argc = 0\<close>, \<open>optind = -1\<close> and the vector that holds the
  terminating NULL only, the three preconditions hold, every assertion of the source
  passes, and the read is out of bounds.
\<close>

theorem argv_read_negative_optind:
  "0 \<le> sint (0 :: c_int) \<and>
   sint (optind (sys (- 1) 0 0 0)) \<le> sint (0 :: c_int) \<and>
   argv_terminated_at [None] 0 \<and>
   asserts (sys (- 1) 0 0 0) 0 [None] tbl \<and>
   argv_at [None] (optind (sys (- 1) 0 0 0)) = Inl OutOfBounds \<and>
   dispatch_verb hdr (sys (- 1) 0 0 0) 0 [None] tbl () = Inl OutOfBounds"
  by (simp add: dispatch_verb_def asserts_def argv_at_def argv_terminated_at_def tbl_def sys_def)

text \<open>
  Claim C9, amended: under \<open>argc \<ge> 0\<close>, \<open>0 \<le> optind \<le> argc\<close> and an argument vector
  terminated at index \<open>argc\<close>, the read \<open>argv[optind]\<close> is in bounds, and it yields NULL,
  the case of no verb given, exactly when \<open>optind = argc\<close>. The only read out of bounds
  left to \<open>dispatch_verb\<close> is that of a table that does not end.
\<close>

theorem argv_read_in_bounds:
  assumes "0 \<le> sint argc" and "0 \<le> sint (optind x)" and "sint (optind x) \<le> sint argc"
    and "argv_terminated_at av argc"
  shows "\<exists>name. argv_at av (optind x) = Inr name \<and>
           (name = None \<longleftrightarrow> optind x = argc) \<and>
           (dispatch_verb h x argc av verbs u = Inl OutOfBounds \<longrightarrow>
              find_verb h name verbs = Overrun)"
proof -
  let ?i = "nat (sint (optind x))"
  from assms(4) have len: "nat (sint argc) < length av"
    and last: "av ! nat (sint argc) = None"
    and args: "list_all (\<lambda>a. a \<noteq> None) (take (nat (sint argc)) av)"
    by (simp_all add: argv_terminated_at_def)
  from assms(2,3) len have i: "?i < length av" by simp
  with assms(2) have rd: "argv_at av (optind x) = Inr (av ! ?i)"
    by (simp add: argv_at_def)
  have branch: "av ! ?i = None \<longleftrightarrow> optind x = argc"
  proof (cases "optind x = argc")
    case True
    with last show ?thesis by simp
  next
    case False
    then have "sint (optind x) \<noteq> sint argc"
      by (auto dest: signed_word_eqI)
    with assms(2,3) have lt: "?i < nat (sint argc)" by simp
    with len have "take (nat (sint argc)) av ! ?i = av ! ?i" by simp
    moreover from lt len have "?i < length (take (nat (sint argc)) av)" by simp
    moreover from args
    have "\<forall>k<length (take (nat (sint argc)) av). take (nat (sint argc)) av ! k \<noteq> None"
      by (simp only: list_all_length)
    ultimately have "av ! ?i \<noteq> None"
      by fastforce
    with False show ?thesis by simp
  qed
  have table: "find_verb h (av ! ?i) verbs = Overrun"
    if "dispatch_verb h x argc av verbs u = Inl OutOfBounds"
  proof (cases "asserts x argc av verbs")
    case False
    with that show ?thesis by (simp add: dispatch_verb_def)
  next
    case True
    show ?thesis
    proof (cases "find_verb h (av ! ?i) verbs")
      case Overrun
      then show ?thesis .
    next
      case AtEnd
      from dispatch_verb_AtEnd [OF True rd this, of u] that show ?thesis by simp
    next
      case (Match v d)
      from dispatch_verb_Match [OF True rd this, of u] that show ?thesis by simp
    qed
  qed
  show ?thesis
  proof (intro exI conjI impI)
    show "argv_at av (optind x) = Inr (av ! ?i)" by (rule rd)
    show "av ! ?i = None \<longleftrightarrow> optind x = argc" by (rule branch)
    assume "dispatch_verb h x argc av verbs u = Inl OutOfBounds"
    then show "find_verb h (av ! ?i) verbs = Overrun" by (rule table)
  qed
qed

text \<open>
  With \<open>optind = 1\<close>: no verb in \<open>["systemctl"]\<close>, the verb \<open>status\<close> in
  \<open>["systemctl", "status"]\<close>.
\<close>

theorem argv_read_in_bounds_witness:
  "argv_at [Some ''systemctl'', None] (optind (sys 1 0 0 0)) = Inr None \<and>
   argv_at [Some ''systemctl'', Some ''status'', None] (optind (sys 1 0 0 0)) =
     Inr (Some ''status'')"
proof -
  have a: "(0::int) \<le> sint (1 :: c_int)" "(0::int) \<le> sint (2 :: c_int)"
    and o: "0 \<le> sint (optind (sys 1 0 0 0))"
      "sint (optind (sys 1 0 0 0)) \<le> sint (1 :: c_int)"
      "sint (optind (sys 1 0 0 0)) \<le> sint (2 :: c_int)"
    and t: "argv_terminated_at [Some ''systemctl'', None] 1"
      "argv_terminated_at [Some ''systemctl'', Some ''status'', None] 2"
    by (simp_all add: sys_def argv_terminated_at_def)
  show ?thesis
    using argv_read_in_bounds [OF a(1) o(1) o(2) t(1), of hdr tbl "()"]
      argv_read_in_bounds [OF a(2) o(1) o(3) t(2), of hdr tbl "()"]
    by (auto simp: sys_def argv_at_def)
qed



end
